theory Spec2Isabelle
  imports Complex_Main "HOL-Library.Char_ord" "HOL-Library.List_Lexorder"
begin

section \<open>Conventions\<close>

text \<open>
  The development embeds the pipeline state machine and the edit-decision timeline engine
  of PodAgent OS.  Python \<^verbatim>\<open>float\<close> times (seconds, milliseconds, confidences) are
  embedded as \<^typ>\<open>real\<close>: the arithmetic is the exact one, rounding of binary floating
  point is not part of the model.  Python \<^verbatim>\<open>str\<close> is \<^typ>\<open>string\<close>, \<^verbatim>\<open>None\<close> is
  \<^term>\<open>None\<close>, a \<^verbatim>\<open>dict\<close> is a partial map, an exception is a value of type \<open>py_exception\<close>, and a
  function that can raise returns a sum with the exception on the left.
\<close>

section \<open>Data model (models/edl.py, models/transcript.py)\<close>

text \<open>
  \<^verbatim>\<open>class Edit(BaseModel)\<close>.  The fields \<^verbatim>\<open>id\<close> and \<^verbatim>\<open>type\<close> carry the suffix
  \<open>_e\<close>; all others keep their names.
\<close>

record Edit =
  id_e :: string
  type_e :: string
  source_track :: string
  source_start :: real
  source_end :: real
  record_start :: "real option"
  record_end :: "real option"
  transition :: string
  speaker :: "string option"
  description :: string
  reason :: "string option"
  confidence :: "real option"
  rationale :: "string option"
  segments :: "string list"
  auto_applied :: bool
  review_flag :: "string option"

text \<open>The property \<^verbatim>\<open>Edit.duration\<close>.\<close>

definition duration :: "Edit \<Rightarrow> real" where
  "duration e = source_end e - source_start e"

section \<open>Edit proposal aggregator (editing/module.py, lines 104--122)\<close>









text \<open>A cut proposal as the detectors build it (the fields they do not set keep their defaults).\<close>

definition cut_proposal :: "string \<Rightarrow> real \<Rightarrow> real \<Rightarrow> real option \<Rightarrow> bool \<Rightarrow> Edit" where
  "cut_proposal ident s e conf auto =
     \<lparr>id_e = ident, type_e = ''cut'', source_track = [], source_start = s, source_end = e,
      record_start = None, record_end = None, transition = ''cut'', speaker = None,
      description = [], reason = None, confidence = conf, rationale = None, segments = [],
      auto_applied = auto, review_flag = None\<rparr>"


subsection \<open>The capping rule in the words of the specification\<close>



section \<open>Timeline builder (editing/edl_builder.py)\<close>

text \<open>\<^verbatim>\<open>class Word\<close> and \<^verbatim>\<open>class Segment\<close> of models/transcript.py; the fields carry the suffixes \<open>_w\<close> and \<open>_s\<close>.\<close>

record Word =
  word_w :: string
  start_w :: real
  end_w :: real
  confidence_w :: real

record Segment =
  id_s :: string
  speaker_s :: string
  start_s :: real
  end_s :: real
  text_s :: string
  words_s :: "Word list"
  source_track_s :: "string option"

definition duration_s :: "Segment \<Rightarrow> real" where
  "duration_s s = end_s s - start_s s"

text \<open>\<^verbatim>\<open>class Transition\<close> and \<^verbatim>\<open>class EDLSidecar\<close> of models/edl.py.\<close>

record Transition =
  between :: "string list"
  type_t :: string
  duration_ms :: int

record EDLSidecar =
  version :: string
  episode_id :: string
  original_duration_seconds :: real
  edited_duration_seconds :: real
  time_removed_seconds :: real
  time_removed_percent :: real
  edl_frame_rate :: int
  edl_mode :: string
  edits :: "Edit list"
  transitions :: "Transition list"

text \<open>The properties \<^verbatim>\<open>EDLSidecar.keep_edits\<close> and \<^verbatim>\<open>EDLSidecar.cut_edits\<close>.\<close>

definition keep_edits :: "EDLSidecar \<Rightarrow> Edit list" where
  "keep_edits edl = filter (\<lambda>e. type_e e = ''keep'') (edits edl)"

definition cut_edits :: "EDLSidecar \<Rightarrow> Edit list" where
  "cut_edits edl = filter (\<lambda>e. type_e e = ''cut'') (edits edl)"

subsection \<open>String formatting\<close>

text \<open>Decimal digits of a natural number, as \<^verbatim>\<open>str(n)\<close> prints them.\<close>

fun str_nat :: "nat \<Rightarrow> string" where
  "str_nat n = (if n < 10 then [''0123456789'' ! n]
                else str_nat (n div 10) @ [''0123456789'' ! (n mod 10)])"

declare str_nat.simps [simp del]

text \<open>\<^verbatim>\<open>f"{n:03d}"\<close> and \<^verbatim>\<open>f"{n:04d}"\<close> for \<open>n \<ge> 0\<close>: zero padding on the left to the given width.\<close>

definition zero_pad :: "nat \<Rightarrow> nat \<Rightarrow> string" where
  "zero_pad width n = replicate (width - length (str_nat n)) (CHR ''0'') @ str_nat n"

text \<open>Rounding to the nearest integer, ties to the even one.\<close>

definition round_half_even :: "real \<Rightarrow> int" where
  "round_half_even x =
     (let f = \<lfloor>x\<rfloor>; d = x - of_int f in
      if d < 1 / 2 then f else if d > 1 / 2 then f + 1 else if even f then f else f + 1)"

text \<open>\<^verbatim>\<open>f"{x:.0f}"\<close>: no decimals, the sign kept when the value is negative.\<close>

definition fmt_0f :: "real \<Rightarrow> string" where
  "fmt_0f x = (if x < 0 then ''-'' else []) @ str_nat (nat (round_half_even \<bar>x\<bar>))"

text \<open>\<^verbatim>\<open>round(x, 1)\<close>\<close>

definition round1 :: "real \<Rightarrow> real" where
  "round1 x = of_int (round_half_even (x * 10)) / 10"

text \<open>\<^verbatim>\<open>sep.join(xs)\<close>\<close>

fun join :: "string \<Rightarrow> string list \<Rightarrow> string" where
  "join sep [] = []"
| "join sep [x] = x"
| "join sep (x # y # ys) = x @ sep @ join sep (y # ys)"

text \<open>\<^verbatim>\<open>_summarize_region\<close>\<close>

definition summarize_region :: "Segment list \<Rightarrow> string" where
  "summarize_region segs =
     (if segs = [] then []
      else
        let speakers = sort (remdups (map speaker_s segs));
            dur = (if length segs > 1 then end_s (last segs) - start_s (hd segs)
                   else duration_s (hd segs))
        in join '', '' speakers @ '' ('' @ fmt_0f dur @ ''s)'')"

subsection \<open>\<^verbatim>\<open>build_edl\<close>\<close>

text \<open>
  The \<^verbatim>\<open>Edit(...)\<close> constructor call shared by the loop body and the tail: a keep edit
  numbered \<open>keep_counter\<close> over the source interval from \<open>current_pos\<close> to \<open>region_end\<close>,
  placed at \<open>record_pos\<close>, with the transition and covering segments given.
\<close>

definition new_keep :: "nat \<Rightarrow> real \<Rightarrow> real \<Rightarrow> real \<Rightarrow> string \<Rightarrow> Segment list \<Rightarrow> Edit" where
  "new_keep keep_counter current_pos region_end record_pos trans_kind region_segments =
     \<lparr>id_e = ''keep-'' @ zero_pad 3 keep_counter,
      type_e = ''keep'',
      source_track = [],
      source_start = current_pos,
      source_end = region_end,
      record_start = Some record_pos,
      record_end = Some (record_pos + (region_end - current_pos)),
      transition = trans_kind,
      speaker = Some (if region_segments = [] then [] else speaker_s (hd region_segments)),
      description = summarize_region region_segments,
      reason = None, confidence = None, rationale = None,
      segments = map id_s region_segments,
      auto_applied = False, review_flag = None\<rparr>"

text \<open>
  The body of \<^verbatim>\<open>for cut in cuts\<close>.  The loop state is
  \<open>(keep_edits, keep_counter, current_pos, record_pos)\<close>.
\<close>

definition keep_step :: "Segment list \<Rightarrow> Edit \<Rightarrow> Edit list \<times> nat \<times> real \<times> real
    \<Rightarrow> Edit list \<times> nat \<times> real \<times> real" where
  "keep_step segs cut_e st =
     (case st of (keeps, keep_counter, current_pos, record_pos) \<Rightarrow>
        if source_start cut_e > current_pos then
          let dur = source_start cut_e - current_pos;
              keep_counter = keep_counter + 1;
              region_segments =
                filter (\<lambda>s. start_s s \<ge> current_pos \<and> end_s s \<le> source_start cut_e) segs
          in (keeps @ [new_keep keep_counter current_pos (source_start cut_e) record_pos
                         (if keep_counter = 1 then ''cut'' else ''crossfade'') region_segments],
              keep_counter, source_end cut_e, record_pos + dur)
        else (keeps, keep_counter, source_end cut_e, record_pos))"

text \<open>\<^verbatim>\<open>total_duration = segments[-1].end if segments else 0\<close>\<close>

definition total_duration_of :: "Segment list \<Rightarrow> real" where
  "total_duration_of segs = (if segs = [] then 0 else end_s (last segs))"

text \<open>The keep edits and the final record position after the loop and the tail region.\<close>

definition build_keeps :: "Segment list \<Rightarrow> Edit list \<Rightarrow> Edit list \<times> real" where
  "build_keeps segs cuts =
     (case fold (keep_step segs) cuts ([], 0, 0, 0) of
        (keeps, keep_counter, current_pos, record_pos) \<Rightarrow>
          if current_pos < total_duration_of segs then
            let dur = total_duration_of segs - current_pos;
                keep_counter = keep_counter + 1;
                region_segments = filter (\<lambda>s. start_s s \<ge> current_pos) segs
            in (keeps @ [new_keep keep_counter current_pos (total_duration_of segs) record_pos
                           ''crossfade'' region_segments],
                record_pos + dur)
          else (keeps, record_pos))"

definition build_transitions :: "Edit list \<Rightarrow> int \<Rightarrow> Transition list" where
  "build_transitions keeps crossfade_duration_ms =
     map (\<lambda>i. \<lparr>between = [id_e (keeps ! i), id_e (keeps ! (i + 1))],
               type_t = ''crossfade'', duration_ms = crossfade_duration_ms\<rparr>)
         [0..<length keeps - 1]"

text \<open>
  \<^verbatim>\<open>build_edl(segments, cut_edits, episode_id=..., frame_rate=..., crossfade_duration_ms=...)\<close>;
  the log line is not modelled.
\<close>

definition build_edl :: "Segment list \<Rightarrow> Edit list \<Rightarrow> string \<Rightarrow> int \<Rightarrow> int \<Rightarrow> EDLSidecar" where
  "build_edl segs cut_edits_in ep_id frame_rate crossfade_duration_ms =
     (let total_duration = total_duration_of segs;
          cuts = sort_key source_start cut_edits_in
      in case build_keeps segs cuts of (keeps, record_pos) \<Rightarrow>
        let edited_duration = record_pos;
            time_removed = total_duration - edited_duration;
            time_removed_pct =
              (if total_duration > 0 then time_removed / total_duration * 100 else 0)
        in \<lparr>version = ''1.0'',
            episode_id = ep_id,
            original_duration_seconds = total_duration,
            edited_duration_seconds = edited_duration,
            time_removed_seconds = time_removed,
            time_removed_percent = round1 time_removed_pct,
            edl_frame_rate = frame_rate,
            edl_mode = ''NON-DROP FRAME'',
            edits = keeps @ cuts,
            transitions = build_transitions keeps crossfade_duration_ms\<rparr>)"

text \<open>A transcript segment with the fields the builder reads, and two example inputs.\<close>

definition seg :: "string \<Rightarrow> string \<Rightarrow> real \<Rightarrow> real \<Rightarrow> Segment" where
  "seg ident spk s e =
     \<lparr>id_s = ident, speaker_s = spk, start_s = s, end_s = e, text_s = [], words_s = [],
      source_track_s = None\<rparr>"

definition episode_example :: "Segment list" where
  "episode_example = [seg ''s1'' ''Ann'' 0 900, seg ''s2'' ''Bob'' 900 1800]"

definition cuts_example :: "Edit list" where
  "cuts_example =
     [cut_proposal ''c1'' 100 200 (Some 1) True,
      cut_proposal ''c2'' 500 700 (Some 1) True,
      cut_proposal ''c3'' 1000 1050 (Some 1) True]"

subsection \<open>Statements about the timeline\<close>





section \<open>Chapter-time remapping (editing/chapters.py)\<close>

text \<open>
  The loop of \<^verbatim>\<open>_map_to_edited_timeline\<close> with its accumulator \<open>offset\<close>; the early
  \<^verbatim>\<open>return None\<close> is the result \<^term>\<open>None\<close>.
\<close>

fun map_loop :: "real \<Rightarrow> Edit list \<Rightarrow> real \<Rightarrow> real option" where
  "map_loop original_time [] offset = Some (original_time - offset)"
| "map_loop original_time (edit # rest) offset =
     (if source_end edit \<le> original_time then
        map_loop original_time rest (offset + duration edit)
      else if source_start edit < original_time \<and> original_time < source_end edit then None
      else map_loop original_time rest offset)"

definition map_to_edited_timeline :: "real \<Rightarrow> Edit list \<Rightarrow> real option" where
  "map_to_edited_timeline original_time cut_edits_in = map_loop original_time cut_edits_in 0"

section \<open>Manifest (models/manifest.py)\<close>

text \<open>
  An exception is its class name and its message (\<^verbatim>\<open>type(e).__name__\<close>, \<^verbatim>\<open>str(e)\<close>).
  Only instances of \<^verbatim>\<open>Exception\<close> are modelled: every \<^verbatim>\<open>raise\<close> of the repository's
  pipeline and stage modules is one.
\<close>

datatype py_exception = PyException (type_name: string) (message_of: string)

definition ValueError :: "string \<Rightarrow> py_exception" where
  "ValueError msg = PyException ''ValueError'' msg"

definition RuntimeError :: "string \<Rightarrow> py_exception" where
  "RuntimeError msg = PyException ''RuntimeError'' msg"

text \<open>\<^verbatim>\<open>str(KeyError(k))\<close> is the key between single quotes.\<close>

definition KeyError :: "string \<Rightarrow> py_exception" where
  "KeyError k = PyException ''KeyError'' ([CHR 0x27] @ k @ [CHR 0x27])"

text \<open>A \<^verbatim>\<open>datetime\<close> is an abstract instant.\<close>

type_synonym timestamp = nat

record StageError =
  type_err :: string
  message :: string
  step :: "string option"

record StageStatus =
  status :: string
  started_at :: "timestamp option"
  completed_at :: "timestamp option"
  gate_approved :: "bool option"
  gate_approved_at :: "timestamp option"
  gate_notes :: "string option"
  error :: "StageError option"
  last_completed_step :: "string option"
  artifact_checksums :: "(string \<times> string) list"

record Pipeline =
  current_stage :: string
  stages :: "string \<rightharpoonup> StageStatus"

text \<open>
  Of \<^verbatim>\<open>class Manifest\<close> only the \<^verbatim>\<open>pipeline\<close> section is kept: the orchestrator and the
  gate controller read and write nothing else (the project title is read for a log line).
\<close>

record Manifest =
  pipeline :: Pipeline

text \<open>\<^verbatim>\<open>Manifest.get_stage\<close>: \<^verbatim>\<open>self.pipeline.stages[name]\<close> raises \<^verbatim>\<open>KeyError\<close> on a missing key.\<close>

definition get_stage :: "Manifest \<Rightarrow> string \<Rightarrow> py_exception + StageStatus" where
  "get_stage manifest name =
     (case stages (pipeline manifest) name of None \<Rightarrow> Inl (KeyError name) | Some st \<Rightarrow> Inr st)"

text \<open>
  The stage objects are mutated in place through the reference \<^verbatim>\<open>get_stage\<close> returned;
  \<open>set_stage\<close> writes the mutated object back under its name.
\<close>

definition set_stage :: "Manifest \<Rightarrow> string \<Rightarrow> StageStatus \<Rightarrow> Manifest" where
  "set_stage manifest name st =
     manifest\<lparr>pipeline := (pipeline manifest)\<lparr>stages := (stages (pipeline manifest))(name \<mapsto> st)\<rparr>\<rparr>"

text \<open>\<^verbatim>\<open>manifest.pipeline.current_stage = name\<close>\<close>

definition set_current_stage :: "Manifest \<Rightarrow> string \<Rightarrow> Manifest" where
  "set_current_stage manifest name =
     manifest\<lparr>pipeline := (pipeline manifest)\<lparr>current_stage := name\<rparr>\<rparr>"

section \<open>Stage order (pipeline/orchestrator.py)\<close>

definition STAGE_ORDER :: "string list" where
  "STAGE_ORDER = [''ingestion'', ''editing'', ''mixing'', ''mastering'']"

text \<open>\<^verbatim>\<open>xs.index(x)\<close>: the first position of \<open>x\<close>, \<^verbatim>\<open>ValueError\<close> when there is none.\<close>

fun index_of :: "string \<Rightarrow> string list \<Rightarrow> py_exception + nat" where
  "index_of x [] = Inl (ValueError ([CHR 0x27] @ x @ [CHR 0x27] @ '' is not in list''))"
| "index_of x (y # ys) =
     (if x = y then Inr 0
      else case index_of x ys of Inl e \<Rightarrow> Inl e | Inr i \<Rightarrow> Inr (Suc i))"

text \<open>\<^verbatim>\<open>_next_stage\<close>\<close>

definition next_stage :: "string \<Rightarrow> py_exception + string" where
  "next_stage current =
     (case index_of current STAGE_ORDER of
        Inl e \<Rightarrow> Inl e
      | Inr idx \<Rightarrow>
          if idx + 1 < length STAGE_ORDER then Inr (STAGE_ORDER ! (idx + 1))
          else Inr ''complete'')"

section \<open>Gate controller (pipeline/gate.py)\<close>

text \<open>\<^verbatim>\<open>if notes: stage.gate_notes = notes\<close>: \<^verbatim>\<open>None\<close> and the empty string are falsy.\<close>

definition record_notes :: "string option \<Rightarrow> StageStatus \<Rightarrow> StageStatus" where
  "record_notes notes stage =
     (case notes of
        None \<Rightarrow> stage
      | Some n \<Rightarrow> if n = [] then stage else stage\<lparr>gate_notes := Some n\<rparr>)"

text \<open>
  The loop of \<^verbatim>\<open>approve_gate\<close> over the stage names.  \<open>Inr\<close> carries the manifest that
  \<^verbatim>\<open>write_yaml\<close> persists before \<^verbatim>\<open>return\<close>; \<open>Inl\<close> is the exception raised, with nothing
  written.  \<open>now\<close> is the reading of the clock.
\<close>

fun approve_loop :: "timestamp \<Rightarrow> string option \<Rightarrow> Manifest \<Rightarrow> string list
    \<Rightarrow> py_exception + Manifest" where
  "approve_loop now notes manifest [] = Inl (RuntimeError ''No gate pending approval'')"
| "approve_loop now notes manifest (stage_name # rest) =
     (case get_stage manifest stage_name of
        Inl e \<Rightarrow> Inl e
      | Inr stage \<Rightarrow>
          if status stage = ''completed'' \<and> gate_approved stage = None then
            let stage = record_notes notes
                  (stage\<lparr>gate_approved := Some True, gate_approved_at := Some now\<rparr>)
            in case next_stage stage_name of
                 Inl e \<Rightarrow> Inl e
               | Inr nxt \<Rightarrow> Inr (set_current_stage (set_stage manifest stage_name stage) nxt)
          else approve_loop now notes manifest rest)"

text \<open>
  \<^verbatim>\<open>approve_gate(manifest_path, notes=...)\<close>: the argument is the manifest stored at the
  path, the result is what the call returns or raises, and the manifest stored afterwards.
\<close>

definition approve_gate :: "timestamp \<Rightarrow> string option \<Rightarrow> Manifest
    \<Rightarrow> (py_exception + unit) \<times> Manifest" where
  "approve_gate now notes stored =
     (case approve_loop now notes stored [''ingestion'', ''editing'', ''mixing'', ''mastering''] of
        Inl e \<Rightarrow> (Inl e, stored)
      | Inr manifest \<Rightarrow> (Inr (), manifest))"

text \<open>The loop of \<^verbatim>\<open>reject_gate\<close>.\<close>

fun reject_loop :: "string option \<Rightarrow> Manifest \<Rightarrow> string list \<Rightarrow> py_exception + Manifest" where
  "reject_loop notes manifest [] = Inl (RuntimeError ''No gate pending review'')"
| "reject_loop notes manifest (stage_name # rest) =
     (case get_stage manifest stage_name of
        Inl e \<Rightarrow> Inl e
      | Inr stage \<Rightarrow>
          if status stage = ''completed'' \<and> gate_approved stage = None then
            let stage = record_notes notes
                  (stage\<lparr>status := ''pending'', started_at := None, completed_at := None,
                         gate_approved := None\<rparr>)
            in Inr (set_current_stage (set_stage manifest stage_name stage) stage_name)
          else reject_loop notes manifest rest)"

definition reject_gate :: "string option \<Rightarrow> Manifest \<Rightarrow> (py_exception + unit) \<times> Manifest" where
  "reject_gate notes stored =
     (case reject_loop notes stored [''ingestion'', ''editing'', ''mixing'', ''mastering''] of
        Inl e \<Rightarrow> (Inl e, stored)
      | Inr manifest \<Rightarrow> (Inr (), manifest))"

subsection \<open>Statements about gates\<close>

text \<open>A manifest with a status for each of the four stages.\<close>

definition has_all_stages :: "Manifest \<Rightarrow> bool" where
  "has_all_stages manifest = list_all (\<lambda>n. stages (pipeline manifest) n \<noteq> None) STAGE_ORDER"

text \<open>The stage awaits review: \<open>status = completed\<close> and \<open>gate_approved = null\<close>.\<close>

definition gate_pending :: "Manifest \<Rightarrow> string \<Rightarrow> bool" where
  "gate_pending manifest name =
     (case stages (pipeline manifest) name of
        None \<Rightarrow> False
      | Some st \<Rightarrow> status st = ''completed'' \<and> gate_approved st = None)"

text \<open>The first stage, in the fixed order, that awaits review.\<close>

definition first_pending_gate :: "Manifest \<Rightarrow> string option" where
  "first_pending_gate manifest = find (gate_pending manifest) STAGE_ORDER"

text \<open>The stage has \<open>gate_approved = true\<close>.\<close>

definition approved :: "Manifest \<Rightarrow> string \<Rightarrow> bool" where
  "approved manifest name =
     (case stages (pipeline manifest) name of
        None \<Rightarrow> False
      | Some st \<Rightarrow> gate_approved st = Some True)"

text \<open>Example manifests: a stage status by status and gate decision, a manifest by its four stages.\<close>

definition stage_status :: "string \<Rightarrow> bool option \<Rightarrow> StageStatus" where
  "stage_status s g =
     \<lparr>status = s, started_at = None, completed_at = None, gate_approved = g,
      gate_approved_at = None, gate_notes = None, error = None, last_completed_step = None,
      artifact_checksums = []\<rparr>"

definition manifest_of :: "string \<Rightarrow> StageStatus \<Rightarrow> StageStatus \<Rightarrow> StageStatus \<Rightarrow> StageStatus
    \<Rightarrow> Manifest" where
  "manifest_of cur s1 s2 s3 s4 =
     \<lparr>pipeline = \<lparr>current_stage = cur,
        stages = [''ingestion'' \<mapsto> s1, ''editing'' \<mapsto> s2, ''mixing'' \<mapsto> s3, ''mastering'' \<mapsto> s4]\<rparr>\<rparr>"

text \<open>A new project: every stage pending.\<close>

definition fresh_manifest :: Manifest where
  "fresh_manifest =
     manifest_of ''ingestion'' (stage_status ''pending'' None) (stage_status ''pending'' None)
       (stage_status ''pending'' None) (stage_status ''pending'' None)"

text \<open>Ingestion approved, editing completed and awaiting review.\<close>

definition editing_review_manifest :: Manifest where
  "editing_review_manifest =
     manifest_of ''editing'' (stage_status ''completed'' (Some True))
       (stage_status ''completed'' None) (stage_status ''pending'' None)
       (stage_status ''pending'' None)"

text \<open>Ingestion and editing both completed and awaiting review.\<close>

definition two_reviews_manifest :: Manifest where
  "two_reviews_manifest =
     manifest_of ''editing'' (stage_status ''completed'' None)
       (stage_status ''completed'' None) (stage_status ''pending'' None)
       (stage_status ''pending'' None)"

section \<open>Pipeline orchestrator (pipeline/orchestrator.py)\<close>

text \<open>
  The stage modules, the gate prompt and the clock are outside the core.  What a call of
  \<^verbatim>\<open>module.run\<close> does to the pipeline section of the manifest is to write checkpoints into
  \<^verbatim>\<open>last_completed_step\<close> of its own stage (every stage module of the repository does
  exactly that); it returns or raises.  \<open>last_step_written\<close> is the last checkpoint written
  during the call, if any, and \<open>raised\<close> the exception the call ended with, if any.
\<close>

record ModuleOutcome =
  last_step_written :: "string option"
  raised :: "py_exception option"

text \<open>The three places of \<^verbatim>\<open>run_pipeline\<close> that read the clock.\<close>

datatype clock_read = StartedAt | CompletedAt | ApprovedAt

text \<open>
  The environment of one invocation: the answer of \<^verbatim>\<open>module.validate_inputs\<close>, the outcome
  of \<^verbatim>\<open>module.run\<close>, the decision \<^verbatim>\<open>present_gate\<close> returns, each for a stage name and the
  manifest at the time of the call, and the clock readings (a stage is visited at most once
  in an invocation, so a reading is determined by its place and the stage).
\<close>

record Env =
  validate_inputs :: "string \<Rightarrow> Manifest \<Rightarrow> string list"
  run :: "string \<Rightarrow> Manifest \<Rightarrow> ModuleOutcome"
  present_gate :: "string \<Rightarrow> Manifest \<Rightarrow> bool"
  clock_now :: "clock_read \<Rightarrow> string \<Rightarrow> timestamp"

text \<open>\<^verbatim>\<open>_load_module\<close>: a module is identified by its stage name.\<close>

definition load_module :: "string \<Rightarrow> py_exception + string" where
  "load_module stage_name =
     (if stage_name = ''ingestion'' then Inr ''ingestion''
      else if stage_name = ''editing'' then Inr ''editing''
      else if stage_name = ''mixing'' then Inr ''mixing''
      else if stage_name = ''mastering'' then Inr ''mastering''
      else Inl (ValueError (''Unknown stage: '' @ stage_name)))"

text \<open>
  Every call of \<^verbatim>\<open>_save_manifest\<close> is recorded with its place in \<^verbatim>\<open>run_pipeline\<close>
  (lines 98, 103, 122, 135, 142, 155 and 158), the stage being processed and the manifest
  written.  The save of line 122 is the one that follows \<^verbatim>\<open>stage.status = "in_progress"\<close>.
\<close>

datatype save_site =
  GateApproved | GatePaused | StageStarted | StageFailed | StageCompleted | StageApproved
  | StagePaused

datatype event = Saved (site: save_site) (stage_of: string) (saved: Manifest)

text \<open>
  One iteration of the loop over the stages either goes on to the next stage
  (\<^verbatim>\<open>continue\<close>, or the end of the body) with the manifest as mutated, or leaves
  \<^verbatim>\<open>run_pipeline\<close> by \<^verbatim>\<open>return\<close> (\<open>Inr ()\<close>) or by an exception (\<open>Inl\<close>).
\<close>

datatype step_result =
  Continue Manifest "event list"
  | Stop "py_exception + unit" "event list"

fun events_of :: "step_result \<Rightarrow> event list" where
  "events_of (Continue manifest events) = events"
| "events_of (Stop result events) = events"

text \<open>
  The three assignments after an approved gate (lines 95--97 and 152--154); \<^verbatim>\<open>_next_stage\<close>
  may raise.
\<close>

definition approve_stage :: "Env \<Rightarrow> string \<Rightarrow> StageStatus \<Rightarrow> Manifest \<Rightarrow> py_exception + Manifest" where
  "approve_stage env stage_name stage manifest =
     (let stage = stage\<lparr>gate_approved := Some True,
                         gate_approved_at := Some (clock_now env ApprovedAt stage_name)\<rparr>
      in case next_stage stage_name of
           Inl e \<Rightarrow> Inl e
         | Inr nxt \<Rightarrow> Inr (set_current_stage (set_stage manifest stage_name stage) nxt))"

text \<open>Lines 106--159: the stage is run.\<close>

definition run_stage :: "Env \<Rightarrow> string \<Rightarrow> StageStatus \<Rightarrow> Manifest \<Rightarrow> step_result" where
  "run_stage env stage_name stage manifest =
     (case load_module stage_name of
        Inl e \<Rightarrow> Stop (Inl e) []
      | Inr stage_module \<Rightarrow>
          if validate_inputs env stage_module manifest \<noteq> [] then
            Stop (Inl (RuntimeError (''Input validation failed for '' @ stage_name))) []
          else
            let stage = stage\<lparr>status := ''in_progress'',
                               started_at := Some (clock_now env StartedAt stage_name),
                               error := None\<rparr>;
                manifest = set_current_stage (set_stage manifest stage_name stage) stage_name;
                started = Saved StageStarted stage_name manifest;
                outcome = run env stage_module manifest;
                stage = (case last_step_written outcome of
                           None \<Rightarrow> stage
                         | Some s \<Rightarrow> stage\<lparr>last_completed_step := Some s\<rparr>);
                manifest = set_stage manifest stage_name stage
            in case raised outcome of
                 Some e \<Rightarrow>
                   let stage = stage\<lparr>status := ''failed'',
                                      error := Some \<lparr>type_err = type_name e,
                                                      message = take 500 (message_of e),
                                                      step = last_completed_step stage\<rparr>\<rparr>;
                       manifest = set_stage manifest stage_name stage
                   in Stop (Inl e) [started, Saved StageFailed stage_name manifest]
               | None \<Rightarrow>
                   let stage = stage\<lparr>status := ''completed'',
                                      completed_at := Some (clock_now env CompletedAt stage_name)\<rparr>;
                       manifest = set_stage manifest stage_name stage;
                       completed = Saved StageCompleted stage_name manifest
                   in if present_gate env stage_name manifest then
                        (case approve_stage env stage_name stage manifest of
                           Inl e \<Rightarrow> Stop (Inl e) [started, completed]
                         | Inr manifest \<Rightarrow>
                             Continue manifest
                               [started, completed, Saved StageApproved stage_name manifest])
                      else Stop (Inr ()) [started, completed, Saved StagePaused stage_name manifest])"

text \<open>The body of \<^verbatim>\<open>for stage_name in STAGE_ORDER[start_idx:]\<close>.\<close>

definition process_stage :: "Env \<Rightarrow> string \<Rightarrow> Manifest \<Rightarrow> step_result" where
  "process_stage env stage_name manifest =
     (case get_stage manifest stage_name of
        Inl e \<Rightarrow> Stop (Inl e) []
      | Inr stage \<Rightarrow>
          if status stage = ''completed'' \<and> gate_approved stage = Some True then
            Continue manifest []
          else if status stage = ''completed'' \<and> gate_approved stage = None then
            (if present_gate env stage_name manifest then
               (case approve_stage env stage_name stage manifest of
                  Inl e \<Rightarrow> Stop (Inl e) []
                | Inr manifest \<Rightarrow> Continue manifest [Saved GateApproved stage_name manifest])
             else Stop (Inr ()) [Saved GatePaused stage_name manifest])
          else run_stage env stage_name stage manifest)"

text \<open>The loop: what \<^verbatim>\<open>run_pipeline\<close> returns or raises, and the saves in their order.\<close>

fun run_stages :: "Env \<Rightarrow> string list \<Rightarrow> Manifest \<Rightarrow> (py_exception + unit) \<times> event list" where
  "run_stages env [] manifest = (Inr (), [])"
| "run_stages env (stage_name # rest) manifest =
     (case process_stage env stage_name manifest of
        Stop result events \<Rightarrow> (result, events)
      | Continue manifest events \<Rightarrow>
          (case run_stages env rest manifest of (result, later) \<Rightarrow> (result, events @ later)))"

text \<open>
  \<^verbatim>\<open>run_pipeline(manifest_path, from_stage=...)\<close> on the manifest stored at the path.
  \<^verbatim>\<open>if from_stage:\<close> is false for \<^verbatim>\<open>None\<close> and for the empty string.
\<close>

definition run_pipeline :: "Env \<Rightarrow> Manifest \<Rightarrow> string option
    \<Rightarrow> (py_exception + unit) \<times> event list" where
  "run_pipeline env stored from_stage =
     (case from_stage of
        None \<Rightarrow> run_stages env (drop 0 STAGE_ORDER) stored
      | Some fs \<Rightarrow>
          if fs = [] then run_stages env (drop 0 STAGE_ORDER) stored
          else if fs \<notin> set STAGE_ORDER then (Inl (ValueError (''Unknown stage: '' @ fs)), [])
          else (case index_of fs STAGE_ORDER of
                  Inl e \<Rightarrow> (Inl e, [])
                | Inr start_idx \<Rightarrow> run_stages env (drop start_idx STAGE_ORDER) stored))"

text \<open>The manifest stored at the path after an invocation: the last one saved.\<close>

definition stored_after :: "Manifest \<Rightarrow> event list \<Rightarrow> Manifest" where
  "stored_after stored events = (if events = [] then stored else saved (last events))"

subsection \<open>Statements about an invocation\<close>

text \<open>The stages an invocation walks: all of them, or those from \<open>from_stage\<close> on.\<close>

definition walked_stages :: "string option \<Rightarrow> string list" where
  "walked_stages from_stage =
     (case from_stage of
        None \<Rightarrow> STAGE_ORDER
      | Some fs \<Rightarrow> if fs = [] then STAGE_ORDER else dropWhile (\<lambda>n. n \<noteq> fs) STAGE_ORDER)"

text \<open>The stages of a list that come before a given one.\<close>

definition stages_before :: "string list \<Rightarrow> string \<Rightarrow> string list" where
  "stages_before names name = takeWhile (\<lambda>n. n \<noteq> name) names"

text \<open>
  Example environments: every input check passes and no checkpoint is written; the gate
  prompt is declined; the module run returns (\<open>quiet_env\<close>) or raises
  \<^verbatim>\<open>FFmpegError\<close> with a message after writing the checkpoint \<open>extract\<close> (\<open>failing_env\<close>).
\<close>

definition quiet_env :: Env where
  "quiet_env =
     \<lparr>validate_inputs = (\<lambda>name manifest. []),
      run = (\<lambda>name manifest. \<lparr>last_step_written = None, raised = None\<rparr>),
      present_gate = (\<lambda>name manifest. False),
      clock_now = (\<lambda>place name. 0)\<rparr>"

definition failing_env :: Env where
  "failing_env =
     \<lparr>validate_inputs = (\<lambda>name manifest. []),
      run = (\<lambda>name manifest.
               \<lparr>last_step_written = Some ''extract'',
                raised = Some (PyException ''FFmpegError'' ''FFmpeg failed (rc=1): no such file'')\<rparr>),
      present_gate = (\<lambda>name manifest. True),
      clock_now = (\<lambda>place name. 0)\<rparr>"

text \<open>
  What the failure save holds for a stage whose run raised \<open>e\<close>, where \<open>ev\<close> is the save
  that marked the stage \<open>in_progress\<close>: status \<open>failed\<close>, and an error record with the name
  of the exception's class, its message cut to 500 characters and the stage's last
  checkpoint, which is the last one the module wrote, or the one the stage had before when
  the module wrote none.
\<close>

definition failure_recorded :: "Env \<Rightarrow> event \<Rightarrow> py_exception \<Rightarrow> Manifest \<Rightarrow> bool" where
  "failure_recorded env ev e mf =
     (case (stages (pipeline (saved ev)) (stage_of ev), stages (pipeline mf) (stage_of ev)) of
        (Some st1, Some stf) \<Rightarrow>
           status stf = ''failed''
           \<and> error stf = Some \<lparr>type_err = type_name e, message = take 500 (message_of e),
                                step = last_completed_step stf\<rparr>
           \<and> last_completed_step stf =
               (case last_step_written (run env (stage_of ev) (saved ev)) of
                  None \<Rightarrow> last_completed_step st1
                | Some s \<Rightarrow> Some s)
      | _ \<Rightarrow> False)"

section \<open>Region mapper (models/alignment.py, mixing/timeline.py, mixing/extract.py)\<close>

text \<open>
  \<^verbatim>\<open>class AlignedTrack\<close>, \<^verbatim>\<open>class CommonTimeline\<close> and \<^verbatim>\<open>class AlignmentMap\<close>; a field
  whose name is taken already carries the suffix \<open>_a\<close>.
\<close>

record AlignedTrack =
  path :: string
  offset_ms :: real
  duration_ms_a :: real
  sample_rate :: int
  channels :: int
  is_reference :: bool
  alignment_confidence :: "real option"
  alignment_method :: "string option"

record CommonTimeline =
  start_ms :: real
  end_ms :: real

record AlignmentMap =
  version_a :: string
  reference_track :: string
  tracks :: "AlignedTrack list"
  common_timeline :: CommonTimeline

text \<open>The loop of \<^verbatim>\<open>AlignmentMap.get_track_offset\<close>: the first track with the path, else 0.\<close>

fun track_offset :: "AlignedTrack list \<Rightarrow> string \<Rightarrow> real" where
  "track_offset [] p = 0"
| "track_offset (track # rest) p = (if path track = p then offset_ms track else track_offset rest p)"

definition get_track_offset :: "AlignmentMap \<Rightarrow> string \<Rightarrow> real" where
  "get_track_offset alignment p = track_offset (tracks alignment) p"

text \<open>\<^verbatim>\<open>class AudioRegion\<close>; the fields it shares with \<open>Edit\<close> carry the suffix \<open>_r\<close>.\<close>

record AudioRegion =
  edit_id :: string
  track_path :: string
  source_start_r :: real
  source_end_r :: real
  record_start_r :: real
  record_end_r :: real
  speaker_r :: string
  offset_ms_r :: real

definition duration_r :: "AudioRegion \<Rightarrow> real" where
  "duration_r r = source_end_r r - source_start_r r"

text \<open>\<^verbatim>\<open>edit.speaker or ""\<close> and \<^verbatim>\<open>edit.record_start or 0.0\<close>\<close>

definition speaker_or_empty :: "Edit \<Rightarrow> string" where
  "speaker_or_empty edit = (case speaker edit of None \<Rightarrow> [] | Some s \<Rightarrow> s)"

definition or_zero :: "real option \<Rightarrow> real" where
  "or_zero x = (case x of None \<Rightarrow> 0 | Some r \<Rightarrow> r)"

text \<open>The body of the loop of \<^verbatim>\<open>build_timeline\<close>: the region of one keep edit.\<close>

definition region_of :: "AlignmentMap \<Rightarrow> (string \<rightharpoonup> string) \<Rightarrow> Edit \<Rightarrow> AudioRegion" where
  "region_of alignment track_map edit =
     (let spk = speaker_or_empty edit;
          tp = (case track_map spk of None \<Rightarrow> [] | Some p \<Rightarrow> p);
          off = (if tp \<noteq> [] then get_track_offset alignment tp else 0)
      in \<lparr>edit_id = id_e edit,
          track_path = tp,
          source_start_r = source_start edit,
          source_end_r = source_end edit,
          record_start_r = or_zero (record_start edit),
          record_end_r = or_zero (record_end edit),
          speaker_r = spk,
          offset_ms_r = off\<rparr>)"

text \<open>\<^verbatim>\<open>build_timeline\<close>; \<^verbatim>\<open>regions.sort(key=...)\<close> is stable.\<close>

definition build_timeline :: "EDLSidecar \<Rightarrow> AlignmentMap \<Rightarrow> (string \<rightharpoonup> string) \<Rightarrow> AudioRegion list" where
  "build_timeline edl alignment track_map =
     sort_key record_start_r (map (region_of alignment track_map) (keep_edits edl))"

subsection \<open>\<^verbatim>\<open>extract_regions\<close>\<close>

text \<open>
  \<^verbatim>\<open>root / p\<close> of pathlib, for a root without a trailing separator: an absolute \<open>p\<close>
  replaces the root.
\<close>

definition path_join :: "string \<Rightarrow> string \<Rightarrow> string" where
  "path_join base p = (if p \<noteq> [] \<and> hd p = CHR ''/'' then p else base @ ''/'' @ p)"

text \<open>The arguments of one call of \<^verbatim>\<open>utils.ffmpeg.extract_region\<close>.\<close>

record ExtractCall =
  input_path :: string
  output_path :: string
  start_x :: real
  duration_x :: real
  sample_rate_x :: int
  channels_x :: int
  bit_depth_x :: int

text \<open>
  The file system and FFmpeg are outside the core: \<open>path_exists\<close> answers
  \<^verbatim>\<open>Path.exists\<close>, and \<open>ffmpeg_fails\<close> gives the \<^verbatim>\<open>FFmpegError\<close> a call of
  \<^verbatim>\<open>extract_region\<close> raises, if it raises.
\<close>

record ExtractEnv =
  path_exists :: "string \<Rightarrow> bool"
  ffmpeg_fails :: "ExtractCall \<Rightarrow> py_exception option"

definition FileNotFoundError :: "string \<Rightarrow> py_exception" where
  "FileNotFoundError msg = PyException ''FileNotFoundError'' msg"

text \<open>
  The loop over \<^verbatim>\<open>enumerate(regions)\<close>, with the dict \<open>extracted\<close> as accumulator.  The
  result is the list of FFmpeg calls made, and the dict returned or the exception raised.
\<close>

fun extract_loop :: "ExtractEnv \<Rightarrow> string \<Rightarrow> string \<Rightarrow> int \<Rightarrow> int \<Rightarrow> (nat \<times> AudioRegion) list
    \<Rightarrow> (string \<rightharpoonup> string) \<Rightarrow> ExtractCall list \<times> (py_exception + (string \<rightharpoonup> string))" where
  "extract_loop env project_root tmp_dir sr bd [] extracted = ([], Inr extracted)"
| "extract_loop env project_root tmp_dir sr bd ((i, region) # rest) extracted =
     (if track_path region = [] then extract_loop env project_root tmp_dir sr bd rest extracted
      else
        let tp = path_join project_root (track_path region) in
        if \<not> path_exists env tp then
          ([], Inl (FileNotFoundError (''Source track not found: '' @ tp)))
        else
          let out = path_join tmp_dir (''region-'' @ zero_pad 4 i @ ''.wav'');
              dur = duration_r region;
              adjusted_start = max (source_start_r region + offset_ms_r region / 1000) 0;
              call = \<lparr>input_path = tp, output_path = out, start_x = adjusted_start,
                      duration_x = dur, sample_rate_x = sr, channels_x = 1, bit_depth_x = bd\<rparr>
          in case ffmpeg_fails env call of
               Some e \<Rightarrow> ([call], Inl e)
             | None \<Rightarrow>
                 (case extract_loop env project_root tmp_dir sr bd rest
                         (extracted(edit_id region \<mapsto> out)) of
                    (calls, result) \<Rightarrow> (call # calls, result)))"

definition extract_regions :: "ExtractEnv \<Rightarrow> AudioRegion list \<Rightarrow> string \<Rightarrow> string \<Rightarrow> int \<Rightarrow> int
    \<Rightarrow> ExtractCall list \<times> (py_exception + (string \<rightharpoonup> string))" where
  "extract_regions env regions project_root tmp_dir sr bd =
     extract_loop env project_root tmp_dir sr bd (enumerate 0 regions) Map.empty"

text \<open>
  Example: the EDL built from the example episode and cuts, whose first keep edit (0 to
  100 s) covers no whole transcript segment and so has the empty speaker; a table with the
  two speakers; an environment where every file exists and FFmpeg succeeds.
\<close>

definition example_edl :: EDLSidecar where
  "example_edl = build_edl episode_example cuts_example ''ep'' 30 50"

definition example_track_map :: "string \<rightharpoonup> string" where
  "example_track_map = [''Ann'' \<mapsto> ''tracks/ann.wav'', ''Bob'' \<mapsto> ''tracks/bob.wav'']"

definition example_alignment :: AlignmentMap where
  "example_alignment =
     \<lparr>version_a = ''1.0'', reference_track = ''tracks/ann.wav'', tracks = [],
      common_timeline = \<lparr>start_ms = 0, end_ms = 0\<rparr>\<rparr>"

definition ok_extract_env :: ExtractEnv where
  "ok_extract_env = \<lparr>path_exists = (\<lambda>p. True), ffmpeg_fails = (\<lambda>c. None)\<rparr>"

section \<open>The aggregator keeps the auto-applied total within the budget\<close>











section \<open>Which edits the aggregator demotes\<close>








section \<open>The keep edits tile the record timeline\<close>













section \<open>Transitions of the keep edits\<close>

text \<open>
  C4.  The claim: the first keep edit of every EDL has transition \<open>cut\<close>, in particular the
  single keep edit of an episode without cuts.  The loop of \<open>build_edl\<close> does choose \<open>cut\<close>
  for keep edit number 1, but the tail region after the last cut is always built with
  \<open>crossfade\<close>: with no cuts the only keep edit is the tail region, and its transition is
  \<open>crossfade\<close>.  With the three cuts of the example the first keep edit comes from the loop
  and has transition \<open>cut\<close>.
\<close>

theorem build_edl_no_cuts_crossfade:
  "map transition (keep_edits (build_edl [seg ''s1'' ''Ann'' 0 10] [] ''ep'' 30 50)) = [''crossfade'']
   \<and> map transition (keep_edits (build_edl episode_example cuts_example ''ep'' 30 50))
       = [''cut'', ''crossfade'', ''crossfade'', ''crossfade'']"
  by code_simp

section \<open>Chapter-time remapping\<close>

lemma map_loop_eq:
  "map_loop t cuts offset =
     (if \<exists>c\<in>set cuts. source_start c < t \<and> t < source_end c then None
      else Some (t - (offset + sum_list (map duration (filter (\<lambda>c. source_end c \<le> t) cuts)))))"
  by (induction cuts arbitrary: offset) (auto simp: add.assoc)

text \<open>
  C8.  For every original timestamp \<open>t\<close> and every cut list, the remapping returns no
  position when \<open>t\<close> lies strictly inside some cut (\<open>source_start < t < source_end\<close>), and
  otherwise \<open>t\<close> minus the summed durations of exactly the cuts with \<open>source_end \<le> t\<close>.
\<close>

theorem map_to_edited_timeline_eq:
  "map_to_edited_timeline t cuts =
     (if \<exists>c\<in>set cuts. source_start c < t \<and> t < source_end c then None
      else Some (t - sum_list (map duration (filter (\<lambda>c. source_end c \<le> t) cuts))))"
  by (simp add: map_to_edited_timeline_def map_loop_eq)

theorem map_to_edited_timeline_eq_witness:
  "map_to_edited_timeline 600 cuts_example = None
   \<and> map_to_edited_timeline 800 cuts_example = Some 500"
proof -
  have "map_to_edited_timeline 600 cuts_example = None"
    using map_to_edited_timeline_eq[of 600 cuts_example]
    by (simp add: cuts_example_def cut_proposal_def)
  moreover have "map_to_edited_timeline 800 cuts_example = Some 500"
    using map_to_edited_timeline_eq[of 800 cuts_example]
    by (simp add: cuts_example_def cut_proposal_def duration_def)
  ultimately show ?thesis by simp
qed

section \<open>Gate approval and rejection\<close>

lemma next_stage_values:
  "next_stage ''ingestion'' = Inr ''editing''"
  "next_stage ''editing'' = Inr ''mixing''"
  "next_stage ''mixing'' = Inr ''mastering''"
  "next_stage ''mastering'' = Inr ''complete''"
  by (simp_all add: next_stage_def STAGE_ORDER_def)

lemma find_STAGE_ORDER_cases:
  assumes "find P STAGE_ORDER = Some s"
  shows "s = ''ingestion'' \<or> s = ''editing'' \<or> s = ''mixing'' \<or> s = ''mastering''"
  using assms by (auto simp: STAGE_ORDER_def split: if_splits)

text \<open>The loops stop at the first stage that awaits review, on any list of stage names.\<close>

lemma approve_loop_find:
  assumes "list_all (\<lambda>n. stages (pipeline m) n \<noteq> None) names"
  shows "approve_loop now notes m names =
    (case find (gate_pending m) names of
       None \<Rightarrow> Inl (RuntimeError ''No gate pending approval'')
     | Some s \<Rightarrow>
        (case next_stage s of
           Inl e \<Rightarrow> Inl e
         | Inr nxt \<Rightarrow>
            Inr (set_current_stage
                  (set_stage m s
                    (record_notes notes
                      ((the (stages (pipeline m) s))
                         \<lparr>gate_approved := Some True, gate_approved_at := Some now\<rparr>)))
                  nxt)))"
  using assms
  by (induction names)
     (auto simp: get_stage_def gate_pending_def split: option.splits cong: sum.case_cong)

lemma reject_loop_find:
  assumes "list_all (\<lambda>n. stages (pipeline m) n \<noteq> None) names"
  shows "reject_loop notes m names =
    (case find (gate_pending m) names of
       None \<Rightarrow> Inl (RuntimeError ''No gate pending review'')
     | Some s \<Rightarrow>
         Inr (set_current_stage
               (set_stage m s
                 (record_notes notes
                   ((the (stages (pipeline m) s))
                      \<lparr>status := ''pending'', started_at := None, completed_at := None,
                        gate_approved := None\<rparr>)))
               s))"
  using assms
  by (induction names) (auto simp: get_stage_def gate_pending_def split: option.splits)

lemma approve_gate_pending:
  assumes "has_all_stages m" and "first_pending_gate m = Some s"
    and "stages (pipeline m) s = Some st"
  shows "approve_gate now notes m =
     (Inr (),
      m\<lparr>pipeline := (pipeline m)
          \<lparr>current_stage :=
             (if s = ''ingestion'' then ''editing'' else if s = ''editing'' then ''mixing''
              else if s = ''mixing'' then ''mastering'' else ''complete''),
           stages := (stages (pipeline m))
             (s \<mapsto> st\<lparr>gate_approved := Some True, gate_approved_at := Some now,
                       gate_notes := (case notes of None \<Rightarrow> gate_notes st
                                      | Some n \<Rightarrow> if n = [] then gate_notes st else Some n)\<rparr>)\<rparr>\<rparr>)"
proof -
  have all: "list_all (\<lambda>n. stages (pipeline m) n \<noteq> None)
               [''ingestion'', ''editing'', ''mixing'', ''mastering'']"
    using assms(1) by (simp add: has_all_stages_def STAGE_ORDER_def)
  have f: "find (gate_pending m) [''ingestion'', ''editing'', ''mixing'', ''mastering''] = Some s"
    using assms(2) by (simp add: first_pending_gate_def STAGE_ORDER_def)
  have s: "s = ''ingestion'' \<or> s = ''editing'' \<or> s = ''mixing'' \<or> s = ''mastering''"
    using assms(2) find_STAGE_ORDER_cases by (simp add: first_pending_gate_def)
  have n: "record_notes notes (st\<lparr>gate_approved := Some True, gate_approved_at := Some now\<rparr>)
      = st\<lparr>gate_approved := Some True, gate_approved_at := Some now,
            gate_notes := (case notes of None \<Rightarrow> gate_notes st
                           | Some n \<Rightarrow> if n = [] then gate_notes st else Some n)\<rparr>"
    by (simp add: record_notes_def split: option.splits)
  have nx: "next_stage s =
      Inr (if s = ''ingestion'' then ''editing'' else if s = ''editing'' then ''mixing''
           else if s = ''mixing'' then ''mastering'' else ''complete'')"
    using s by (elim disjE) (simp_all add: next_stage_values)
  have "approve_loop now notes m [''ingestion'', ''editing'', ''mixing'', ''mastering''] =
      Inr (set_current_stage
            (set_stage m s
              (record_notes notes (st\<lparr>gate_approved := Some True, gate_approved_at := Some now\<rparr>)))
            (if s = ''ingestion'' then ''editing'' else if s = ''editing'' then ''mixing''
             else if s = ''mixing'' then ''mastering'' else ''complete''))"
    unfolding approve_loop_find[OF all] f by (simp only: option.case nx sum.case assms(3) option.sel)
  then show ?thesis
    unfolding approve_gate_def n by (simp add: set_current_stage_def set_stage_def)
qed

lemma approve_gate_none_pending:
  assumes "has_all_stages m" and "first_pending_gate m = None"
  shows "approve_gate now notes m = (Inl (RuntimeError ''No gate pending approval''), m)"
proof -
  have all: "list_all (\<lambda>n. stages (pipeline m) n \<noteq> None)
               [''ingestion'', ''editing'', ''mixing'', ''mastering'']"
    using assms(1) by (simp add: has_all_stages_def STAGE_ORDER_def)
  have f: "find (gate_pending m) [''ingestion'', ''editing'', ''mixing'', ''mastering''] = None"
    using assms(2) by (simp add: first_pending_gate_def STAGE_ORDER_def)
  show ?thesis unfolding approve_gate_def approve_loop_find[OF all] f by simp
qed

text \<open>After the approval of the only stage that awaited review, none awaits review.\<close>

lemma approve_gate_leaves_none:
  assumes "has_all_stages m" and "first_pending_gate m = Some s"
    and "\<forall>n\<in>set STAGE_ORDER. n \<noteq> s \<longrightarrow> \<not> gate_pending m n"
  shows "has_all_stages (snd (approve_gate now notes m))
       \<and> first_pending_gate (snd (approve_gate now notes m)) = None"
proof -
  have mem: "s \<in> set STAGE_ORDER"
    using assms(2) by (auto simp: first_pending_gate_def dest: find_Some_iff[THEN iffD1] nth_mem)
  then obtain st where st: "stages (pipeline m) s = Some st"
    using assms(1) by (auto simp: has_all_stages_def list_all_iff)
  note eq = approve_gate_pending[OF assms(1,2) st, of now "notes"]
  have a: "has_all_stages (snd (approve_gate now notes m))"
    using assms(1) unfolding eq by (simp add: has_all_stages_def list_all_iff)
  have "\<not> gate_pending (snd (approve_gate now notes m)) n" if "n \<in> set STAGE_ORDER" for n
  proof (cases "n = s")
    case True
    then show ?thesis unfolding eq by (simp add: gate_pending_def)
  next
    case False
    then have "\<not> gate_pending m n" using assms(3) that by blast
    then show ?thesis using False unfolding eq by (simp add: gate_pending_def)
  qed
  then have "first_pending_gate (snd (approve_gate now notes m)) = None"
    by (simp add: first_pending_gate_def find_None_iff)
  then show ?thesis using a by simp
qed

text \<open>
  C6 as stated fails in its last clause.  With ingestion and editing both completed and
  awaiting review, two consecutive approvals with no stage completed in between both
  succeed: the first approves ingestion, the second editing.
\<close>

theorem approve_gate_twice_succeeds:
  "fst (approve_gate 1 None two_reviews_manifest) = Inr ()
   \<and> fst (approve_gate 2 None (snd (approve_gate 1 None two_reviews_manifest))) = Inr ()
   \<and> current_stage (pipeline (snd (approve_gate 2 None
        (snd (approve_gate 1 None two_reviews_manifest))))) = ''mixing''"
  by code_simp

text \<open>
  C6, amended.  On a manifest with all four stages, \<open>approve_gate\<close> sets \<open>gate_approved = true\<close>
  and stamps the approval time on the first stage (in the fixed order) with
  \<open>status = completed\<close> and \<open>gate_approved = null\<close>, records the notes when they are given and
  not empty, and sets \<open>current_stage\<close> to the next stage name, or to \<open>complete\<close> when the
  approved stage is mastering; nothing else changes.  When no stage qualifies it fails with
  the error \<open>No gate pending approval\<close> and leaves the stored manifest unchanged.  Two
  consecutive calls make the second one fail when the stage the first call approved was the
  only one awaiting review.
\<close>

theorem approve_gate_correct:
  assumes "has_all_stages m"
  shows "(\<forall>s st. first_pending_gate m = Some s \<and> stages (pipeline m) s = Some st \<longrightarrow>
            approve_gate now notes m =
              (Inr (),
               m\<lparr>pipeline := (pipeline m)
                   \<lparr>current_stage :=
                      (if s = ''ingestion'' then ''editing'' else if s = ''editing'' then ''mixing''
                       else if s = ''mixing'' then ''mastering'' else ''complete''),
                    stages := (stages (pipeline m))
                      (s \<mapsto> st\<lparr>gate_approved := Some True, gate_approved_at := Some now,
                                gate_notes := (case notes of None \<Rightarrow> gate_notes st
                                  | Some n \<Rightarrow> if n = [] then gate_notes st else Some n)\<rparr>)\<rparr>\<rparr>))
       \<and> (first_pending_gate m = None \<longrightarrow>
            approve_gate now notes m = (Inl (RuntimeError ''No gate pending approval''), m))
       \<and> (\<forall>s. first_pending_gate m = Some s
               \<and> (\<forall>n\<in>set STAGE_ORDER. n \<noteq> s \<longrightarrow> \<not> gate_pending m n) \<longrightarrow>
            approve_gate now' notes' (snd (approve_gate now notes m))
              = (Inl (RuntimeError ''No gate pending approval''), snd (approve_gate now notes m)))"
proof (intro conjI allI impI)
  fix s st
  assume "first_pending_gate m = Some s \<and> stages (pipeline m) s = Some st"
  then show "approve_gate now notes m =
              (Inr (),
               m\<lparr>pipeline := (pipeline m)
                   \<lparr>current_stage :=
                      (if s = ''ingestion'' then ''editing'' else if s = ''editing'' then ''mixing''
                       else if s = ''mixing'' then ''mastering'' else ''complete''),
                    stages := (stages (pipeline m))
                      (s \<mapsto> st\<lparr>gate_approved := Some True, gate_approved_at := Some now,
                                gate_notes := (case notes of None \<Rightarrow> gate_notes st
                                  | Some n \<Rightarrow> if n = [] then gate_notes st else Some n)\<rparr>)\<rparr>\<rparr>)"
    using approve_gate_pending[OF assms] by blast
next
  assume "first_pending_gate m = None"
  then show "approve_gate now notes m = (Inl (RuntimeError ''No gate pending approval''), m)"
    by (rule approve_gate_none_pending[OF assms])
next
  fix s
  assume a: "first_pending_gate m = Some s
             \<and> (\<forall>n\<in>set STAGE_ORDER. n \<noteq> s \<longrightarrow> \<not> gate_pending m n)"
  then have "has_all_stages (snd (approve_gate now notes m))
       \<and> first_pending_gate (snd (approve_gate now notes m)) = None"
    using approve_gate_leaves_none[OF assms] by blast
  then show "approve_gate now' notes' (snd (approve_gate now notes m))
              = (Inl (RuntimeError ''No gate pending approval''), snd (approve_gate now notes m))"
    using approve_gate_none_pending by blast
qed

lemma editing_review_facts:
  "has_all_stages editing_review_manifest"
  "first_pending_gate editing_review_manifest = Some ''editing''"
  "stages (pipeline editing_review_manifest) ''editing'' = Some (stage_status ''completed'' None)"
proof -
  show "has_all_stages editing_review_manifest" by code_simp
  show "first_pending_gate editing_review_manifest = Some ''editing''" by code_simp
  show "stages (pipeline editing_review_manifest) ''editing''
          = Some (stage_status ''completed'' None)"
    by (simp add: editing_review_manifest_def manifest_of_def)
qed

lemma fresh_manifest_facts:
  "has_all_stages fresh_manifest"
  "first_pending_gate fresh_manifest = None"
  by code_simp+

theorem approve_gate_correct_witness:
  "has_all_stages editing_review_manifest
   \<and> first_pending_gate editing_review_manifest = Some ''editing''
   \<and> fst (approve_gate 7 (Some ''ok'') editing_review_manifest) = Inr ()
   \<and> current_stage (pipeline (snd (approve_gate 7 (Some ''ok'') editing_review_manifest)))
       = ''mixing''
   \<and> fst (approve_gate 8 None (snd (approve_gate 7 (Some ''ok'') editing_review_manifest)))
       = Inl (RuntimeError ''No gate pending approval'')"
proof -
  have o: "\<forall>n\<in>set STAGE_ORDER. n \<noteq> ''editing'' \<longrightarrow> \<not> gate_pending editing_review_manifest n"
    by code_simp
  note t = approve_gate_correct[OF editing_review_facts(1), of 7 "Some ''ok''" 8 None]
  have 1: "approve_gate 7 (Some ''ok'') editing_review_manifest =
     (Inr (),
      editing_review_manifest\<lparr>pipeline := (pipeline editing_review_manifest)
          \<lparr>current_stage := ''mixing'',
           stages := (stages (pipeline editing_review_manifest))
             (''editing'' \<mapsto> (stage_status ''completed'' None)
                \<lparr>gate_approved := Some True, gate_approved_at := Some 7,
                 gate_notes := Some ''ok''\<rparr>)\<rparr>\<rparr>)"
    using t editing_review_facts(2,3) by simp
  have 2: "approve_gate 8 None (snd (approve_gate 7 (Some ''ok'') editing_review_manifest))
       = (Inl (RuntimeError ''No gate pending approval''),
          snd (approve_gate 7 (Some ''ok'') editing_review_manifest))"
    using t editing_review_facts(2) o by blast
  show ?thesis using editing_review_facts(1,2) 1 2 by simp
qed

text \<open>
  C7.  On a manifest with all four stages, \<open>reject_gate\<close> resets the first stage (in the fixed
  order) with \<open>status = completed\<close> and \<open>gate_approved = null\<close> to \<open>status = pending\<close> with
  \<open>started_at\<close>, \<open>completed_at\<close> and \<open>gate_approved\<close> cleared, sets \<open>current_stage\<close> back to
  that stage, records the notes when they are given and not empty, and changes nothing
  else; when no stage qualifies it fails with the error \<open>No gate pending review\<close> and leaves
  the stored manifest unchanged.
\<close>

theorem reject_gate_correct:
  assumes "has_all_stages m"
  shows "(\<forall>s st. first_pending_gate m = Some s \<and> stages (pipeline m) s = Some st \<longrightarrow>
            reject_gate notes m =
              (Inr (),
               m\<lparr>pipeline := (pipeline m)
                   \<lparr>current_stage := s,
                    stages := (stages (pipeline m))
                      (s \<mapsto> st\<lparr>status := ''pending'', started_at := None, completed_at := None,
                                gate_approved := None,
                                gate_notes := (case notes of None \<Rightarrow> gate_notes st
                                  | Some n \<Rightarrow> if n = [] then gate_notes st else Some n)\<rparr>)\<rparr>\<rparr>))
       \<and> (first_pending_gate m = None \<longrightarrow>
            reject_gate notes m = (Inl (RuntimeError ''No gate pending review''), m))"
proof -
  have all: "list_all (\<lambda>n. stages (pipeline m) n \<noteq> None)
               [''ingestion'', ''editing'', ''mixing'', ''mastering'']"
    using assms by (simp add: has_all_stages_def STAGE_ORDER_def)
  have n: "record_notes notes
        (st\<lparr>status := ''pending'', started_at := None, completed_at := None, gate_approved := None\<rparr>)
      = st\<lparr>status := ''pending'', started_at := None, completed_at := None, gate_approved := None,
            gate_notes := (case notes of None \<Rightarrow> gate_notes st
                           | Some n \<Rightarrow> if n = [] then gate_notes st else Some n)\<rparr>" for st
    by (simp add: record_notes_def split: option.splits)
  show ?thesis
    unfolding reject_gate_def reject_loop_find[OF all]
    by (auto simp: first_pending_gate_def STAGE_ORDER_def n set_current_stage_def set_stage_def)
qed

theorem reject_gate_correct_witness:
  "has_all_stages editing_review_manifest
   \<and> first_pending_gate editing_review_manifest = Some ''editing''
   \<and> reject_gate (Some ''too aggressive'') editing_review_manifest =
       (Inr (),
        editing_review_manifest\<lparr>pipeline := (pipeline editing_review_manifest)
          \<lparr>current_stage := ''editing'',
           stages := (stages (pipeline editing_review_manifest))
             (''editing'' \<mapsto> (stage_status ''completed'' None)
                \<lparr>status := ''pending'', started_at := None, completed_at := None,
                 gate_approved := None, gate_notes := Some ''too aggressive''\<rparr>)\<rparr>\<rparr>)
   \<and> has_all_stages fresh_manifest \<and> first_pending_gate fresh_manifest = None
   \<and> reject_gate None fresh_manifest = (Inl (RuntimeError ''No gate pending review''), fresh_manifest)"
proof -
  have 1: "reject_gate (Some ''too aggressive'') editing_review_manifest =
       (Inr (),
        editing_review_manifest\<lparr>pipeline := (pipeline editing_review_manifest)
          \<lparr>current_stage := ''editing'',
           stages := (stages (pipeline editing_review_manifest))
             (''editing'' \<mapsto> (stage_status ''completed'' None)
                \<lparr>status := ''pending'', started_at := None, completed_at := None,
                 gate_approved := None, gate_notes := Some ''too aggressive''\<rparr>)\<rparr>\<rparr>)"
    using reject_gate_correct[OF editing_review_facts(1), of "Some ''too aggressive''"]
      editing_review_facts(2,3) by simp
  have 2: "reject_gate None fresh_manifest
             = (Inl (RuntimeError ''No gate pending review''), fresh_manifest)"
    using reject_gate_correct[OF fresh_manifest_facts(1), of None] fresh_manifest_facts(2)
    by blast
  show ?thesis using editing_review_facts(1,2) fresh_manifest_facts 1 2 by simp
qed

section \<open>Stages start only after the stages before them are approved\<close>

lemma stages_set_stage:
  "stages (pipeline (set_stage m n st)) = (stages (pipeline m))(n \<mapsto> st)"
  by (simp add: set_stage_def)

lemma stages_set_current_stage:
  "stages (pipeline (set_current_stage m c)) = stages (pipeline m)"
  by (simp add: set_current_stage_def)

lemma approve_stage_stages:
  assumes "approve_stage env n st m = Inr m'"
  shows "stages (pipeline m') =
     (stages (pipeline m))
       (n \<mapsto> st\<lparr>gate_approved := Some True, gate_approved_at := Some (clock_now env ApprovedAt n)\<rparr>)"
  using assms
  by (auto simp: approve_stage_def stages_set_stage stages_set_current_stage split: sum.splits)

text \<open>The events of a run of a stage, and the manifest it goes on with.\<close>

lemma run_stage_events:
  assumes "ev \<in> set (events_of (run_stage env x st m))"
  shows "stage_of ev = x \<and> (\<forall>k. k \<noteq> x \<longrightarrow> stages (pipeline (saved ev)) k = stages (pipeline m) k)"
  using assms
  by (auto simp: run_stage_def Let_def stages_set_stage stages_set_current_stage
        dest!: approve_stage_stages split: sum.splits option.splits if_splits)

lemma run_stage_continue:
  assumes "run_stage env x st m = Continue m' evs"
  shows "approved m' x \<and> (\<forall>k. k \<noteq> x \<longrightarrow> stages (pipeline m') k = stages (pipeline m) k)"
  using assms
  by (auto simp: run_stage_def Let_def approved_def stages_set_stage stages_set_current_stage
        dest!: approve_stage_stages split: sum.splits option.splits if_splits)

lemma process_stage_events:
  assumes "ev \<in> set (events_of (process_stage env x m))"
  shows "stage_of ev = x \<and> (\<forall>k. k \<noteq> x \<longrightarrow> stages (pipeline (saved ev)) k = stages (pipeline m) k)"
proof (cases "get_stage m x")
  case (Inl e)
  then show ?thesis using assms by (simp add: process_stage_def)
next
  case (Inr st)
  consider (skip) "status st = ''completed'' \<and> gate_approved st = Some True"
    | (gate) "status st = ''completed'' \<and> gate_approved st = None"
    | (run) "\<not> (status st = ''completed'' \<and> gate_approved st = Some True)"
            "\<not> (status st = ''completed'' \<and> gate_approved st = None)"
    by blast
  then show ?thesis
  proof cases
    case skip
    then show ?thesis using assms Inr by (simp add: process_stage_def)
  next
    case gate
    then show ?thesis using assms Inr
      by (auto simp: process_stage_def dest!: approve_stage_stages split: sum.splits if_splits)
  next
    case run
    then have "process_stage env x m = run_stage env x st m"
      using Inr by (auto simp: process_stage_def)
    then show ?thesis using assms run_stage_events by simp
  qed
qed

lemma process_stage_continue:
  assumes "process_stage env x m = Continue m' evs"
  shows "approved m' x \<and> (\<forall>k. k \<noteq> x \<longrightarrow> stages (pipeline m') k = stages (pipeline m) k)"
proof (cases "get_stage m x")
  case (Inl e)
  then show ?thesis using assms by (simp add: process_stage_def)
next
  case (Inr st)
  have got: "stages (pipeline m) x = Some st"
    using Inr by (simp add: get_stage_def split: option.splits)
  consider (skip) "status st = ''completed'' \<and> gate_approved st = Some True"
    | (gate) "status st = ''completed'' \<and> gate_approved st = None"
    | (run) "\<not> (status st = ''completed'' \<and> gate_approved st = Some True)"
            "\<not> (status st = ''completed'' \<and> gate_approved st = None)"
    by blast
  then show ?thesis
  proof cases
    case skip
    then show ?thesis using assms Inr got by (auto simp: process_stage_def approved_def)
  next
    case gate
    then show ?thesis using assms Inr
      by (auto simp: process_stage_def approved_def dest!: approve_stage_stages
            split: sum.splits if_splits)
  next
    case run
    then have "process_stage env x m = run_stage env x st m"
      using Inr by (auto simp: process_stage_def)
    then have "run_stage env x st m = Continue m' evs" using assms by simp
    then show ?thesis by (rule run_stage_continue)
  qed
qed

lemma approved_cong:
  "stages (pipeline m') k = stages (pipeline m) k \<Longrightarrow> approved m' k = approved m k"
  by (simp add: approved_def)

lemma run_stages_stage_of:
  assumes "ev \<in> set (snd (run_stages env names m))"
  shows "stage_of ev \<in> set names"
  using assms
proof (induction names arbitrary: m)
  case Nil
  then show ?case by simp
next
  case (Cons x names)
  show ?case
  proof (cases "process_stage env x m")
    case (Stop r evs)
    then have "ev \<in> set (events_of (process_stage env x m))" using Cons.prems by simp
    then show ?thesis using process_stage_events by simp
  next
    case (Continue m1 evs)
    then have "ev \<in> set evs \<or> ev \<in> set (snd (run_stages env names m1))"
      using Cons.prems by (auto split: prod.splits)
    then show ?thesis
    proof
      assume "ev \<in> set evs"
      then have "ev \<in> set (events_of (process_stage env x m))" using Continue by simp
      then show ?thesis using process_stage_events by simp
    next
      assume "ev \<in> set (snd (run_stages env names m1))"
      then show ?thesis using Cons.IH by simp
    qed
  qed
qed

text \<open>
  The invariant of the loop: the stages already walked are approved, and stay so, since an
  iteration touches the entry of its own stage only.
\<close>

lemma run_stages_started:
  assumes "distinct names" and "\<forall>d\<in>set walked. d \<notin> set names"
    and "\<forall>d\<in>set walked. approved m d"
    and "ev \<in> set (snd (run_stages env names m))"
  shows "\<forall>e\<in>set walked \<union> set (stages_before names (stage_of ev)). approved (saved ev) e"
  using assms
proof (induction names arbitrary: m walked)
  case Nil
  then show ?case by simp
next
  case (Cons x names)
  have here: "\<forall>e\<in>set walked \<union> set (stages_before (x # names) (stage_of ev)).
                approved (saved ev) e"
    if mem: "ev \<in> set (events_of (process_stage env x m))"
  proof -
    have so: "stage_of ev = x"
      and fr: "\<forall>k. k \<noteq> x \<longrightarrow> stages (pipeline (saved ev)) k = stages (pipeline m) k"
      using process_stage_events[OF mem] by blast+
    have "approved (saved ev) d" if "d \<in> set walked" for d
    proof -
      have "d \<noteq> x" using Cons.prems(2) that by auto
      then have "approved (saved ev) d = approved m d" using fr approved_cong by blast
      then show ?thesis using Cons.prems(3) that by simp
    qed
    then show ?thesis using so by (simp add: stages_before_def)
  qed
  show ?case
  proof (cases "process_stage env x m")
    case (Stop r evs)
    then have "ev \<in> set (events_of (process_stage env x m))" using Cons.prems(4) by simp
    then show ?thesis by (rule here)
  next
    case (Continue m1 evs)
    then have "ev \<in> set evs \<or> ev \<in> set (snd (run_stages env names m1))"
      using Cons.prems(4) by (auto split: prod.splits)
    then show ?thesis
    proof
      assume "ev \<in> set evs"
      then have "ev \<in> set (events_of (process_stage env x m))" using Continue by simp
      then show ?thesis by (rule here)
    next
      assume later: "ev \<in> set (snd (run_stages env names m1))"
      have ap: "approved m1 x"
        and fr: "\<forall>k. k \<noteq> x \<longrightarrow> stages (pipeline m1) k = stages (pipeline m) k"
        using process_stage_continue[OF Continue] by blast+
      have d: "distinct names" and nx: "x \<notin> set names" using Cons.prems(1) by auto
      have w: "\<forall>d\<in>set (walked @ [x]). d \<notin> set names" using Cons.prems(2) nx by auto
      have a: "\<forall>d\<in>set (walked @ [x]). approved m1 d"
      proof
        fix d assume dm: "d \<in> set (walked @ [x])"
        show "approved m1 d"
        proof (cases "d = x")
          case True
          then show ?thesis using ap by simp
        next
          case False
          then have "d \<in> set walked" using dm by simp
          moreover have "approved m1 d = approved m d" using fr False approved_cong by blast
          ultimately show ?thesis using Cons.prems(3) by simp
        qed
      qed
      have ih: "\<forall>e\<in>set (walked @ [x]) \<union> set (stages_before names (stage_of ev)).
                  approved (saved ev) e"
        by (rule Cons.IH[OF d w a later])
      have "stage_of ev \<in> set names" using later run_stages_stage_of by blast
      then have "stage_of ev \<noteq> x" using nx by auto
      then have "stages_before (x # names) (stage_of ev) = x # stages_before names (stage_of ev)"
        by (simp add: stages_before_def)
      then show ?thesis using ih by auto
    qed
  qed
qed

lemma run_pipeline_walks:
  "run_pipeline env stored from_stage = run_stages env (walked_stages from_stage) stored
   \<or> snd (run_pipeline env stored from_stage) = []"
proof (cases from_stage)
  case None
  then show ?thesis by (simp add: run_pipeline_def walked_stages_def)
next
  case (Some fs)
  show ?thesis
  proof (cases "fs = [] \<or> fs \<notin> set STAGE_ORDER")
    case True
    then show ?thesis using Some by (auto simp: run_pipeline_def walked_stages_def)
  next
    case False
    then have "fs = ''ingestion'' \<or> fs = ''editing'' \<or> fs = ''mixing'' \<or> fs = ''mastering''"
      by (simp add: STAGE_ORDER_def)
    then show ?thesis using Some
      by (elim disjE) (simp_all add: run_pipeline_def walked_stages_def STAGE_ORDER_def)
  qed
qed

lemma distinct_walked_stages: "distinct (walked_stages from_stage)"
proof -
  have "distinct STAGE_ORDER" by (simp add: STAGE_ORDER_def)
  then show ?thesis
    by (auto simp: walked_stages_def distinct_dropWhile split: option.splits)
qed

text \<open>
  C5 as stated fails for an invocation with \<open>from_stage\<close>.  On a new project (every stage
  pending, no gate approved) \<open>run_pipeline\<close> with \<open>from_stage = mixing\<close> sets mixing to
  \<open>in_progress\<close> and saves, while ingestion (and editing) have \<open>gate_approved = null\<close>.
\<close>

theorem run_pipeline_from_stage_skips_gates:
  "site (hd (snd (run_pipeline quiet_env fresh_manifest (Some ''mixing'')))) = StageStarted
   \<and> stage_of (hd (snd (run_pipeline quiet_env fresh_manifest (Some ''mixing'')))) = ''mixing''
   \<and> map_option status (stages (pipeline (saved (hd (snd
        (run_pipeline quiet_env fresh_manifest (Some ''mixing'')))))) ''mixing'')
       = Some ''in_progress''
   \<and> map_option gate_approved (stages (pipeline (saved (hd (snd
        (run_pipeline quiet_env fresh_manifest (Some ''mixing'')))))) ''ingestion'')
       = Some None"
  by code_simp

text \<open>
  C5, amended.  During any single invocation of \<open>run_pipeline\<close>, no stage is set to
  \<open>in_progress\<close> while some earlier stage among those the invocation walks has
  \<open>gate_approved \<noteq> true\<close>; the invocation walks all four stages in the fixed order when no
  \<open>from_stage\<close> is given, and the stages from \<open>from_stage\<close> on otherwise (the stages before
  \<open>from_stage\<close> are not examined).  Every save that follows the assignment of \<open>in_progress\<close>
  is a \<open>StageStarted\<close> event.
\<close>

theorem run_pipeline_starts_after_approval:
  "\<forall>ev\<in>set (snd (run_pipeline env stored from_stage)).
      site ev = StageStarted \<longrightarrow>
        (\<forall>e\<in>set (stages_before (walked_stages from_stage) (stage_of ev)).
            approved (saved ev) e)"
proof (intro ballI impI)
  fix ev e
  assume ev: "ev \<in> set (snd (run_pipeline env stored from_stage))"
    and e: "e \<in> set (stages_before (walked_stages from_stage) (stage_of ev))"
  have "run_pipeline env stored from_stage = run_stages env (walked_stages from_stage) stored"
    using run_pipeline_walks[of env stored from_stage] ev by auto
  then have mem: "ev \<in> set (snd (run_stages env (walked_stages from_stage) stored))"
    using ev by simp
  have "\<forall>e\<in>set [] \<union> set (stages_before (walked_stages from_stage) (stage_of ev)).
           approved (saved ev) e"
    by (rule run_stages_started[OF distinct_walked_stages _ _ mem]) simp_all
  then show "approved (saved ev) e" using e by simp
qed

theorem run_pipeline_starts_after_approval_witness:
  "site (snd (run_pipeline failing_env editing_review_manifest None) ! 1) = StageStarted
   \<and> stage_of (snd (run_pipeline failing_env editing_review_manifest None) ! 1) = ''mixing''
   \<and> approved (saved (snd (run_pipeline failing_env editing_review_manifest None) ! 1))
        ''ingestion''
   \<and> approved (saved (snd (run_pipeline failing_env editing_review_manifest None) ! 1))
        ''editing''"
proof -
  let ?evs = "snd (run_pipeline failing_env editing_review_manifest None)"
  have l: "length ?evs = 3" by code_simp
  have s: "site (?evs ! 1) = StageStarted" by code_simp
  have n: "stage_of (?evs ! 1) = ''mixing''" by code_simp
  have b: "stages_before (walked_stages None) ''mixing'' = [''ingestion'', ''editing'']"
    by code_simp
  have mem: "?evs ! 1 \<in> set ?evs" using l by simp
  have "\<forall>e\<in>set (stages_before (walked_stages None) (stage_of (?evs ! 1))).
          approved (saved (?evs ! 1)) e"
    using run_pipeline_starts_after_approval[of failing_env editing_review_manifest None] mem s
    by blast
  then show ?thesis using s n b by simp
qed

section \<open>A stage failure is recorded and ends the invocation\<close>

lemma load_module_Inr: "load_module x = Inr y \<Longrightarrow> y = x"
  by (auto simp: load_module_def split: if_splits)

lemma run_stage_failure:
  assumes "ev \<in> set (events_of (run_stage env x st m))" and "site ev = StageStarted"
    and "raised (run env (stage_of ev) (saved ev)) = Some e"
  shows "\<exists>mf. run_stage env x st m = Stop (Inl e) [ev, Saved StageFailed (stage_of ev) mf]
            \<and> failure_recorded env ev e mf"
proof (cases "load_module x")
  case (Inl err)
  then show ?thesis using assms(1) by (simp add: run_stage_def)
next
  case (Inr y)
  then have y: "y = x" by (rule load_module_Inr)
  show ?thesis
  proof (cases "validate_inputs env x m \<noteq> []")
    case True
    then show ?thesis using assms(1) Inr y by (simp add: run_stage_def)
  next
    case False
    define st1 where "st1 = st\<lparr>status := ''in_progress'',
        started_at := Some (clock_now env StartedAt x), error := None\<rparr>"
    define m1 where "m1 = set_current_stage (set_stage m x st1) x"
    define out where "out = run env x m1"
    define st2 where "st2 = (case last_step_written out of None \<Rightarrow> st1
         | Some s \<Rightarrow> st1\<lparr>last_completed_step := Some s\<rparr>)"
    define m2 where "m2 = set_stage m1 x st2"
    have evs: "ev \<in> set (events_of (run_stage env x st m)) \<Longrightarrow> site ev = StageStarted
         \<Longrightarrow> ev = Saved StageStarted x m1"
      using Inr y False
      by (auto simp: run_stage_def Let_def st1_def m1_def split: option.splits sum.splits if_splits)
    have ev: "ev = Saved StageStarted x m1" using evs assms(1,2) by simp
    then have r: "raised out = Some e" using assms(3) by (simp add: out_def)
    define stf where "stf = st2\<lparr>status := ''failed'',
        error := Some \<lparr>type_err = type_name e, message = take 500 (message_of e),
                       step = last_completed_step st2\<rparr>\<rparr>"
    define mf where "mf = set_stage m2 x stf"
    have res: "run_stage env x st m = Stop (Inl e) [ev, Saved StageFailed (stage_of ev) mf]"
      using Inr y False r ev
      by (simp add: run_stage_def Let_def st1_def m1_def out_def st2_def m2_def stf_def mf_def
            cong: option.case_cong)
    have s1: "stages (pipeline m1) x = Some st1"
      by (simp add: m1_def stages_set_stage stages_set_current_stage)
    have sf: "stages (pipeline mf) x = Some stf"
      by (simp add: mf_def stages_set_stage)
    have l: "last_completed_step stf =
        (case last_step_written out of None \<Rightarrow> last_completed_step st1 | Some s \<Rightarrow> Some s)"
      by (simp add: stf_def st2_def split: option.splits)
    have "failure_recorded env ev e mf"
      using s1 sf l by (simp add: failure_recorded_def ev out_def stf_def)
    then show ?thesis using res by blast
  qed
qed

lemma process_stage_failure:
  assumes "ev \<in> set (events_of (process_stage env x m))" and "site ev = StageStarted"
    and "raised (run env (stage_of ev) (saved ev)) = Some e"
  shows "\<exists>mf. process_stage env x m = Stop (Inl e) [ev, Saved StageFailed (stage_of ev) mf]
            \<and> failure_recorded env ev e mf"
proof (cases "get_stage m x")
  case (Inl err)
  then show ?thesis using assms(1) by (simp add: process_stage_def)
next
  case (Inr st)
  consider (skip) "status st = ''completed'' \<and> gate_approved st = Some True"
    | (gate) "status st = ''completed'' \<and> gate_approved st = None"
    | (run) "\<not> (status st = ''completed'' \<and> gate_approved st = Some True)"
            "\<not> (status st = ''completed'' \<and> gate_approved st = None)"
    by blast
  then show ?thesis
  proof cases
    case skip
    then show ?thesis using assms(1) Inr by (simp add: process_stage_def)
  next
    case gate
    then show ?thesis using assms(1,2) Inr
      by (auto simp: process_stage_def split: sum.splits if_splits)
  next
    case run
    then have eq: "process_stage env x m = run_stage env x st m"
      using Inr by (auto simp: process_stage_def)
    then have "ev \<in> set (events_of (run_stage env x st m))" using assms(1) by simp
    then show ?thesis unfolding eq using assms(2,3) by (rule run_stage_failure)
  qed
qed

lemma run_stages_failure:
  assumes "ev \<in> set (snd (run_stages env names m))" and "site ev = StageStarted"
    and "raised (run env (stage_of ev) (saved ev)) = Some e"
  shows "\<exists>pre mf. run_stages env names m
                     = (Inl e, pre @ [ev, Saved StageFailed (stage_of ev) mf])
            \<and> failure_recorded env ev e mf"
  using assms(1)
proof (induction names arbitrary: m)
  case Nil
  then show ?case by simp
next
  case (Cons x names)
  have here: ?case if mem: "ev \<in> set (events_of (process_stage env x m))"
  proof -
    obtain mf where p: "process_stage env x m
          = Stop (Inl e) [ev, Saved StageFailed (stage_of ev) mf]"
      and f: "failure_recorded env ev e mf"
      using process_stage_failure[OF mem assms(2,3)] by blast
    have "run_stages env (x # names) m = (Inl e, [] @ [ev, Saved StageFailed (stage_of ev) mf])"
      using p by simp
    then show ?thesis using f by blast
  qed
  show ?case
  proof (cases "process_stage env x m")
    case (Stop r evs)
    then have "ev \<in> set (events_of (process_stage env x m))" using Cons.prems by simp
    then show ?thesis by (rule here)
  next
    case (Continue m1 evs)
    then have "ev \<in> set evs \<or> ev \<in> set (snd (run_stages env names m1))"
      using Cons.prems by (auto split: prod.splits)
    then show ?thesis
    proof
      assume "ev \<in> set evs"
      then have "ev \<in> set (events_of (process_stage env x m))" using Continue by simp
      then show ?thesis by (rule here)
    next
      assume "ev \<in> set (snd (run_stages env names m1))"
      then obtain pre mf where r: "run_stages env names m1
            = (Inl e, pre @ [ev, Saved StageFailed (stage_of ev) mf])"
        and f: "failure_recorded env ev e mf"
        using Cons.IH by blast
      have "run_stages env (x # names) m
              = (Inl e, (evs @ pre) @ [ev, Saved StageFailed (stage_of ev) mf])"
        using Continue r by simp
      then show ?thesis using f by blast
    qed
  qed
qed

text \<open>
  C9.  If the run of a stage module raises an exception \<open>e\<close> (the run is the call on the
  manifest saved by the \<open>StageStarted\<close> event \<open>ev\<close> of that stage), the orchestrator sets
  the stage to \<open>failed\<close> with an error record holding the name of the exception's class, the
  message cut to at most 500 characters and the last checkpoint; that manifest is saved,
  the save is the last of the invocation (so it is what is stored afterwards, and no later
  stage is started), and the invocation raises the same exception \<open>e\<close>.
\<close>

theorem run_pipeline_stage_failure:
  assumes "ev \<in> set (snd (run_pipeline env stored from_stage))" and "site ev = StageStarted"
    and "raised (run env (stage_of ev) (saved ev)) = Some e"
  shows "\<exists>pre mf. run_pipeline env stored from_stage
                     = (Inl e, pre @ [ev, Saved StageFailed (stage_of ev) mf])
            \<and> failure_recorded env ev e mf
            \<and> (\<forall>st. stages (pipeline mf) (stage_of ev) = Some st \<longrightarrow>
                  (\<forall>err. error st = Some err \<longrightarrow> length (message err) \<le> 500))
            \<and> stored_after stored (snd (run_pipeline env stored from_stage)) = mf"
proof -
  have eq: "run_pipeline env stored from_stage
              = run_stages env (walked_stages from_stage) stored"
    using run_pipeline_walks[of env stored from_stage] assms(1) by auto
  then have "ev \<in> set (snd (run_stages env (walked_stages from_stage) stored))"
    using assms(1) by simp
  then obtain pre mf where r: "run_stages env (walked_stages from_stage) stored
        = (Inl e, pre @ [ev, Saved StageFailed (stage_of ev) mf])"
    and f: "failure_recorded env ev e mf"
    using run_stages_failure[OF _ assms(2,3)] by blast
  have len: "\<forall>st. stages (pipeline mf) (stage_of ev) = Some st \<longrightarrow>
                  (\<forall>err. error st = Some err \<longrightarrow> length (message err) \<le> 500)"
    using f by (auto simp: failure_recorded_def split: option.splits)
  have "stored_after stored (snd (run_pipeline env stored from_stage)) = mf"
    unfolding eq r by (simp add: stored_after_def)
  then show ?thesis using eq r f len by auto
qed

theorem run_pipeline_stage_failure_witness:
  "site (snd (run_pipeline failing_env editing_review_manifest None) ! 1) = StageStarted
   \<and> raised (run failing_env
        (stage_of (snd (run_pipeline failing_env editing_review_manifest None) ! 1))
        (saved (snd (run_pipeline failing_env editing_review_manifest None) ! 1)))
       = Some (PyException ''FFmpegError'' ''FFmpeg failed (rc=1): no such file'')
   \<and> fst (run_pipeline failing_env editing_review_manifest None)
       = Inl (PyException ''FFmpegError'' ''FFmpeg failed (rc=1): no such file'')"
proof -
  let ?evs = "snd (run_pipeline failing_env editing_review_manifest None)"
  let ?e = "PyException ''FFmpegError'' ''FFmpeg failed (rc=1): no such file''"
  have l: "length ?evs = 3" by code_simp
  have s: "site (?evs ! 1) = StageStarted" by code_simp
  have r: "raised (run failing_env (stage_of (?evs ! 1)) (saved (?evs ! 1))) = Some ?e"
    by (simp add: failing_env_def)
  have mem: "?evs ! 1 \<in> set ?evs" using l by simp
  obtain pre mf where
    "run_pipeline failing_env editing_review_manifest None
       = (Inl ?e, pre @ [?evs ! 1, Saved StageFailed (stage_of (?evs ! 1)) mf])"
    using run_pipeline_stage_failure[OF mem s r] by blast
  then have "fst (run_pipeline failing_env editing_review_manifest None) = Inl ?e"
    by (metis fst_conv)
  then show ?thesis using s r by simp
qed

section \<open>Keep edits without a track\<close>

lemma region_of_absent:
  assumes "track_map (speaker_or_empty e) = None"
  shows "region_of alignment track_map e =
     \<lparr>edit_id = id_e e, track_path = [], source_start_r = source_start e,
      source_end_r = source_end e, record_start_r = or_zero (record_start e),
      record_end_r = or_zero (record_end e), speaker_r = speaker_or_empty e, offset_ms_r = 0\<rparr>"
  using assms by (simp add: region_of_def)

lemma edit_id_region_of: "edit_id (region_of alignment track_map e) = id_e e"
  by (simp add: region_of_def Let_def)

lemma set_build_timeline:
  "set (build_timeline edl alignment track_map)
     = region_of alignment track_map ` set (keep_edits edl)"
  by (simp add: build_timeline_def)

text \<open>The loop gives the same calls and the same result as on the regions with a track.\<close>

lemma extract_loop_skip:
  "extract_loop env project_root tmp_dir sr bd irs extracted =
   extract_loop env project_root tmp_dir sr bd (filter (\<lambda>ir. track_path (snd ir) \<noteq> []) irs) extracted"
proof (induction irs arbitrary: extracted)
  case Nil
  then show ?case by simp
next
  case (Cons ir irs)
  obtain i region where ir: "ir = (i, region)" by (cases ir)
  show ?case
  proof (cases "track_path region = []")
    case True
    then show ?thesis using Cons.IH ir by simp
  next
    case False
    let ?tp = "path_join project_root (track_path region)"
    let ?out = "path_join tmp_dir (''region-'' @ zero_pad 4 i @ ''.wav'')"
    let ?call = "\<lparr>input_path = ?tp, output_path = ?out,
        start_x = max (source_start_r region + offset_ms_r region / 1000) 0,
        duration_x = duration_r region, sample_rate_x = sr, channels_x = 1, bit_depth_x = bd\<rparr>"
    note nonempty = False
    show ?thesis
    proof (cases "path_exists env ?tp")
      case False
      then show ?thesis using nonempty ir by (simp add: Let_def)
    next
      case True
      show ?thesis
      proof (cases "ffmpeg_fails env ?call")
        case (Some err)
        then show ?thesis using nonempty True ir by (simp add: Let_def)
      next
        case None
        have "extract_loop env project_root tmp_dir sr bd irs (extracted(edit_id region \<mapsto> ?out))
            = extract_loop env project_root tmp_dir sr bd
                (filter (\<lambda>ir. track_path (snd ir) \<noteq> []) irs)
                (extracted(edit_id region \<mapsto> ?out))"
          by (rule Cons.IH)
        then show ?thesis using nonempty True None ir by (simp add: Let_def)
      qed
    qed
  qed
qed

text \<open>Every key of the dict returned comes from a region with a track.\<close>

lemma extract_loop_keys:
  assumes "extract_loop env project_root tmp_dir sr bd irs extracted0 = (calls, Inr extracted)"
    and "extracted k = Some p"
  shows "extracted0 k = Some p
       \<or> (\<exists>ir\<in>set irs. edit_id (snd ir) = k \<and> track_path (snd ir) \<noteq> [])"
  using assms
proof (induction irs arbitrary: extracted0 calls)
  case Nil
  then show ?case by simp
next
  case (Cons ir irs)
  obtain i region where ir: "ir = (i, region)" by (cases ir)
  show ?case
  proof (cases "track_path region = []")
    case True
    then have "extract_loop env project_root tmp_dir sr bd irs extracted0 = (calls, Inr extracted)"
      using Cons.prems(1) ir by simp
    then show ?thesis using Cons.IH Cons.prems(2) by fastforce
  next
    case False
    let ?out = "path_join tmp_dir (''region-'' @ zero_pad 4 i @ ''.wav'')"
    obtain calls' where
      rest: "extract_loop env project_root tmp_dir sr bd irs (extracted0(edit_id region \<mapsto> ?out))
               = (calls', Inr extracted)"
      using Cons.prems(1) ir False
      by (auto simp: Let_def split: if_splits option.splits prod.splits)
    have "(extracted0(edit_id region \<mapsto> ?out)) k = Some p
       \<or> (\<exists>ir\<in>set irs. edit_id (snd ir) = k \<and> track_path (snd ir) \<noteq> [])"
      by (rule Cons.IH[OF rest Cons.prems(2)])
    then show ?thesis using ir False by (auto split: if_splits)
  qed
qed

text \<open>
  C10.  For every keep edit whose speaker is absent from the speaker-to-track table, the
  region mapper emits a region with an empty \<open>track_path\<close> and alignment offset 0 (it has no
  error to raise), and the region extraction skips every region with an empty
  \<open>track_path\<close>: its FFmpeg calls and its result, dict or exception, are those of the regions
  that have a track, so such a region yields no extracted file and no failure; when the ids
  of the keep edits are distinct, the dict returned has no entry for the keep edit.
\<close>

theorem absent_speaker_region_skipped:
  assumes "e \<in> set (keep_edits edl)" and "track_map (speaker_or_empty e) = None"
  shows "region_of alignment track_map e \<in> set (build_timeline edl alignment track_map)
       \<and> edit_id (region_of alignment track_map e) = id_e e
       \<and> track_path (region_of alignment track_map e) = []
       \<and> offset_ms_r (region_of alignment track_map e) = 0
       \<and> extract_regions env regions project_root tmp_dir sr bd
           = extract_loop env project_root tmp_dir sr bd
               (filter (\<lambda>ir. track_path (snd ir) \<noteq> []) (enumerate 0 regions)) Map.empty
       \<and> (distinct (map id_e (keep_edits edl)) \<longrightarrow>
            (\<forall>calls extracted.
                extract_regions env (build_timeline edl alignment track_map) project_root tmp_dir sr bd
                  = (calls, Inr extracted) \<longrightarrow> extracted (id_e e) = None))"
proof (intro conjI impI allI)
  show "region_of alignment track_map e \<in> set (build_timeline edl alignment track_map)"
    using assms(1) by (simp add: set_build_timeline)
  show "edit_id (region_of alignment track_map e) = id_e e" by (rule edit_id_region_of)
  show "track_path (region_of alignment track_map e) = []"
    using assms(2) by (simp add: region_of_absent)
  show "offset_ms_r (region_of alignment track_map e) = 0"
    using assms(2) by (simp add: region_of_absent)
  show "extract_regions env regions project_root tmp_dir sr bd
           = extract_loop env project_root tmp_dir sr bd
               (filter (\<lambda>ir. track_path (snd ir) \<noteq> []) (enumerate 0 regions)) Map.empty"
    unfolding extract_regions_def by (rule extract_loop_skip)
next
  fix calls extracted
  assume d: "distinct (map id_e (keep_edits edl))"
    and r: "extract_regions env (build_timeline edl alignment track_map) project_root tmp_dir sr bd
              = (calls, Inr extracted)"
  show "extracted (id_e e) = None"
  proof (rule ccontr)
    assume "extracted (id_e e) \<noteq> None"
    then obtain p where p: "extracted (id_e e) = Some p" by auto
    have "Map.empty (id_e e) = Some p
       \<or> (\<exists>ir\<in>set (enumerate 0 (build_timeline edl alignment track_map)).
              edit_id (snd ir) = id_e e \<and> track_path (snd ir) \<noteq> [])"
      by (rule extract_loop_keys[OF r[unfolded extract_regions_def] p])
    then obtain ir where ir: "ir \<in> set (enumerate 0 (build_timeline edl alignment track_map))"
      and k: "edit_id (snd ir) = id_e e" and t: "track_path (snd ir) \<noteq> []"
      by auto
    have "fst ir < length (build_timeline edl alignment track_map)"
      and "build_timeline edl alignment track_map ! fst ir = snd ir"
      using ir by (simp_all add: in_set_enumerate_eq)
    then have "snd ir \<in> set (build_timeline edl alignment track_map)"
      using nth_mem by fastforce
    then obtain e' where e': "e' \<in> set (keep_edits edl)"
      and s: "snd ir = region_of alignment track_map e'"
      by (auto simp: set_build_timeline)
    have eq: "id_e e' = id_e e" using k s by (simp add: edit_id_region_of)
    have inj: "inj_on id_e (set (keep_edits edl))" using d by (simp add: distinct_map)
    have "e' = e" by (rule inj_onD[OF inj eq e' assms(1)])
    then show False using t s assms(2) by (simp add: region_of_absent)
  qed
qed

theorem absent_speaker_region_skipped_witness:
  "hd (keep_edits example_edl) \<in> set (keep_edits example_edl)
   \<and> example_track_map (speaker_or_empty (hd (keep_edits example_edl))) = None
   \<and> id_e (hd (keep_edits example_edl)) = ''keep-001''
   \<and> track_path (region_of example_alignment example_track_map (hd (keep_edits example_edl))) = []
   \<and> distinct (map id_e (keep_edits example_edl))
   \<and> \<not> isl (snd (extract_regions ok_extract_env
          (build_timeline example_edl example_alignment example_track_map) ''proj'' ''tmp'' 48000 24))
   \<and> projr (snd (extract_regions ok_extract_env
          (build_timeline example_edl example_alignment example_track_map) ''proj'' ''tmp'' 48000 24))
        ''keep-001'' = None"
proof -
  let ?e = "hd (keep_edits example_edl)"
  let ?x = "extract_regions ok_extract_env
          (build_timeline example_edl example_alignment example_track_map) ''proj'' ''tmp'' 48000 24"
  have ne: "keep_edits example_edl \<noteq> []" by code_simp
  then have mem: "?e \<in> set (keep_edits example_edl)" by simp
  have ab: "example_track_map (speaker_or_empty ?e) = None" by code_simp
  have i: "id_e ?e = ''keep-001''" by code_simp
  have d: "distinct (map id_e (keep_edits example_edl))" by code_simp
  have ok: "\<not> isl (snd ?x)" by code_simp
  then have x: "?x = (fst ?x, Inr (projr (snd ?x)))" by (cases "snd ?x") (auto simp: prod_eq_iff)
  note t = absent_speaker_region_skipped[where e = "?e" and edl = example_edl
      and track_map = example_track_map and alignment = example_alignment
      and env = ok_extract_env and regions = "[]" and project_root = "''proj''"
      and tmp_dir = "''tmp''" and sr = 48000 and bd = 24, OF mem ab]
  have "projr (snd ?x) (id_e ?e) = None" using t d x by blast
  then show ?thesis using mem ab i d ok t by simp
qed

end
